theory Spec2Isabelle
  imports Main "HOL-Library.Sublist"
begin

section \<open>Python values\<close>

text \<open>
  The values that reach the library are what \<open>json()\<close> decodes and what the user's
  predicates return: \<open>None\<close>, booleans, integers, strings, lists and dictionaries with
  string keys. A dictionary is an association list whose keys are distinct (the decoder
  keeps one entry per key); \<open>map_of\<close> reads it. Floating-point numbers are left out.
\<close>

datatype pyval =
    PNone
  | PBool bool
  | PInt int
  | PStr string
  | PList "pyval list"
  | PDict "(string \<times> pyval) list"

datatype pyerr = AttributeError | KeyError | TypeError | ReError | Exception string

text \<open>Truth value testing, as \<open>if x:\<close> performs it.\<close>

fun truthy :: "pyval \<Rightarrow> bool" where
  "truthy PNone = False"
| "truthy (PBool b) = b"
| "truthy (PInt i) = (i \<noteq> 0)"
| "truthy (PStr s) = (s \<noteq> [])"
| "truthy (PList xs) = (xs \<noteq> [])"
| "truthy (PDict d) = (d \<noteq> [])"

text \<open>
  \<open>a == b\<close>. A boolean is an integer (\<open>True == 1\<close>); lists compare element by
  element; two dictionaries are equal when they have the same number of keys and every
  entry of the first has an equal entry in the second.
\<close>

fun py_eq :: "pyval \<Rightarrow> pyval \<Rightarrow> bool" where
  "py_eq PNone PNone = True"
| "py_eq (PBool a) (PBool b) = (a = b)"
| "py_eq (PBool a) (PInt j) = ((if a then 1 else 0) = j)"
| "py_eq (PInt i) (PBool b) = (i = (if b then 1 else 0))"
| "py_eq (PInt i) (PInt j) = (i = j)"
| "py_eq (PStr s) (PStr t) = (s = t)"
| "py_eq (PList xs) (PList ys) = list_all2 py_eq xs ys"
| "py_eq (PDict a) (PDict b) =
     (length a = length b \<and>
      list_all (\<lambda>(k, v). list_ex (\<lambda>(k', v'). k = k' \<and> py_eq v v') b) a)"
| "py_eq _ _ = False"

text \<open>\<open>d.get(k, default)\<close>: only a dictionary has the method.\<close>

fun py_get :: "pyval \<Rightarrow> string \<Rightarrow> pyval \<Rightarrow> pyerr + pyval" where
  "py_get (PDict d) k dflt = Inr (case map_of d k of None \<Rightarrow> dflt | Some v \<Rightarrow> v)"
| "py_get _ k dflt = Inl AttributeError"

text \<open>\<open>x[k]\<close> for a string key \<open>k\<close>.\<close>

fun py_subscript :: "pyval \<Rightarrow> string \<Rightarrow> pyerr + pyval" where
  "py_subscript (PDict d) k = (case map_of d k of None \<Rightarrow> Inl KeyError | Some v \<Rightarrow> Inr v)"
| "py_subscript _ k = Inl TypeError"

text \<open>\<open>c in t\<close> for two strings: \<open>c\<close> occurs in \<open>t\<close> as a contiguous piece.\<close>

fun py_str_in :: "string \<Rightarrow> string \<Rightarrow> bool" where
  "py_str_in c [] = (c = [])"
| "py_str_in c (x # xs) = (prefix c (x # xs) \<or> py_str_in c xs)"

text \<open>
  \<open>x in y\<close>. In a string the left operand must be a string; in a list it is compared
  with \<open>==\<close> to each element; in a dictionary it is looked up among the keys and must
  be hashable; anything else is not iterable.
\<close>

fun py_in :: "pyval \<Rightarrow> pyval \<Rightarrow> pyerr + bool" where
  "py_in (PStr c) (PStr t) = Inr (py_str_in c t)"
| "py_in _ (PStr t) = Inl TypeError"
| "py_in x (PList ys) = Inr (list_ex (\<lambda>y. py_eq y x) ys)"
| "py_in (PList xs) (PDict d) = Inl TypeError"
| "py_in (PDict a) (PDict d) = Inl TypeError"
| "py_in (PStr c) (PDict d) = Inr (c \<in> set (map fst d))"
| "py_in _ (PDict d) = Inr False"
| "py_in _ _ = Inl TypeError"

text \<open>
  \<open>a | b\<close> as \<open>check |= b\<close> evaluates it. The left operand is the accumulator of
  \<open>MessageRule.check\<close>, a boolean or an integer; \<open>bool.__or__\<close> and \<open>int.__or__\<close>
  accept booleans and integers only, and no other value of this model reflects the
  operation, so every other right operand raises \<open>TypeError\<close>.
\<close>

fun py_or :: "pyval \<Rightarrow> pyval \<Rightarrow> pyerr + pyval" where
  "py_or (PBool a) (PBool b) = Inr (PBool (a \<or> b))"
| "py_or (PBool a) (PInt j) = Inr (PInt (or (if a then 1 else 0) j))"
| "py_or (PInt i) (PBool b) = Inr (PInt (or i (if b then 1 else 0)))"
| "py_or (PInt i) (PInt j) = Inr (PInt (or i j))"
| "py_or _ _ = Inl TypeError"

section \<open>Event\<close>

text \<open>
  The four slots of an \<open>Event\<close>. A slot that was never assigned is \<open>None\<close> here and
  reading it raises \<open>AttributeError\<close>. \<open>time_created\<close> holds the wall-clock time of
  the construction, which no code reads: only whether it is set is kept.
\<close>

record event =
  type :: "pyval option"
  object :: "pyval option"
  group_id :: "pyval option"
  time_created :: "unit option"

definition unset_event :: event where
  "unset_event = \<lparr>type = None, object = None, group_id = None, time_created = None\<rparr>"

text \<open>\<open>Event(json)\<close>: the slots are assigned only when \<open>json\<close> is truthy.\<close>

definition Event :: "pyval \<Rightarrow> pyerr + event" where
  "Event json =
     (if truthy json then
        (case py_get json ''type'' PNone of
           Inl e \<Rightarrow> Inl e
         | Inr t \<Rightarrow>
        (case py_get json ''object'' PNone of
           Inl e \<Rightarrow> Inl e
         | Inr ob \<Rightarrow>
        (case py_get json ''group_id'' PNone of
           Inl e \<Rightarrow> Inl e
         | Inr g \<Rightarrow>
             Inr \<lparr>type = Some t, object = Some ob, group_id = Some g,
                  time_created = Some ()\<rparr>)))
      else Inr unset_event)"

text \<open>Reading a slot.\<close>

definition attr :: "'a option \<Rightarrow> pyerr + 'a" where
  "attr slot = (case slot of None \<Rightarrow> Inl AttributeError | Some v \<Rightarrow> Inr v)"

section \<open>Rules\<close>

type_synonym predicate = "event \<Rightarrow> pyerr + pyval"

record message_rule =
  attachment_types :: "pyval list option"
  payload :: "(string \<times> pyval) list option"
  func_text :: "predicate option"
  func_msg :: "predicate option"
  regexp :: "string option"
  commands :: "pyval list option"

text \<open>
  A rule is one of the two built-in classes or a user's subclass, given by its
  \<open>check\<close> method.
\<close>

datatype rule =
    TypeRule pyval "predicate option"
  | MessageRule message_rule
  | CustomRule predicate

text \<open>\<open>TypeRule.check\<close>.\<close>

definition TypeRule_check :: "pyval \<Rightarrow> predicate option \<Rightarrow> event \<Rightarrow> pyerr + pyval" where
  "TypeRule_check rtype func ev =
     (case attr (type ev) of
        Inl e \<Rightarrow> Inl e
      | Inr t \<Rightarrow>
          if py_eq rtype t then
            (case func of Some f \<Rightarrow> f ev | None \<Rightarrow> Inr (PBool True))
          else Inr (PBool False))"

text \<open>\<open>check |= rhs\<close>, where evaluating \<open>rhs\<close> may raise.\<close>

definition ior :: "pyval \<Rightarrow> pyerr + pyval \<Rightarrow> pyerr + pyval" where
  "ior check rhs = (case rhs of Inl e \<Rightarrow> Inl e | Inr v \<Rightarrow> py_or check v)"

text \<open>
  \<open>any([i['type'] in self.attachment_types for i in msg.get('attachments')])\<close>. The
  list is built in full before \<open>any\<close> looks at it, so a later element that has no
  \<open>'type'\<close> raises even after an earlier one matched.
\<close>

fun attachment_flags :: "pyval list \<Rightarrow> pyval list \<Rightarrow> pyerr + bool list" where
  "attachment_flags ats [] = Inr []"
| "attachment_flags ats (i # rest) =
     (case py_subscript i ''type'' of
        Inl e \<Rightarrow> Inl e
      | Inr t \<Rightarrow>
     (case py_in t (PList ats) of
        Inl e \<Rightarrow> Inl e
      | Inr b \<Rightarrow>
     (case attachment_flags ats rest of
        Inl e \<Rightarrow> Inl e
      | Inr bs \<Rightarrow> Inr (b # bs))))"

text \<open>The elements a \<open>for\<close> loop or a comprehension draws from a value.\<close>

fun py_iter :: "pyval \<Rightarrow> pyerr + pyval list" where
  "py_iter (PList xs) = Inr xs"
| "py_iter (PStr s) = Inr (map (\<lambda>c. PStr [c]) s)"
| "py_iter (PDict d) = Inr (map (\<lambda>(k, v). PStr k) d)"
| "py_iter _ = Inl TypeError"

definition attachment_cond :: "pyval list \<Rightarrow> pyval \<Rightarrow> pyerr + pyval" where
  "attachment_cond ats msg =
     (case py_get msg ''attachments'' PNone of
        Inl e \<Rightarrow> Inl e
      | Inr a \<Rightarrow>
     (case py_iter a of
        Inl e \<Rightarrow> Inl e
      | Inr items \<Rightarrow>
     (case attachment_flags ats items of
        Inl e \<Rightarrow> Inl e
      | Inr bs \<Rightarrow> Inr (PBool (list_ex (\<lambda>b. b) bs)))))"

definition payload_cond :: "(string \<times> pyval) list \<Rightarrow> pyval \<Rightarrow> pyerr + pyval" where
  "payload_cond p msg =
     (case py_get msg ''payload'' (PDict []) of
        Inl e \<Rightarrow> Inl e
      | Inr v \<Rightarrow> Inr (PBool (py_eq v (PDict p))))"

text \<open>
  \<open>check |= re.match(self.regexp, msg['text'])\<close>. The matcher \<open>re_match\<close> is the
  library's: it raises, or says whether it returns a match object (\<open>True\<close>) or
  \<open>None\<close> (\<open>False\<close>). Neither result is a boolean or an integer, and neither
  reflects \<open>|\<close>, so the update of \<open>check\<close> raises \<open>TypeError\<close> in both cases.
\<close>

type_synonym matcher = "string \<Rightarrow> pyval \<Rightarrow> pyerr + bool"

definition regexp_step :: "matcher \<Rightarrow> string \<Rightarrow> pyval \<Rightarrow> pyval \<Rightarrow> pyerr + pyval" where
  "regexp_step re_match p msg check =
     (case py_subscript msg ''text'' of
        Inl e \<Rightarrow> Inl e
      | Inr t \<Rightarrow>
     (case re_match p t of
        Inl e \<Rightarrow> Inl e
      | Inr m \<Rightarrow> Inl TypeError))"

text \<open>\<open>for command in self.commands: check |= command in msg['text']\<close>.\<close>

fun commands_loop :: "pyval list \<Rightarrow> pyval \<Rightarrow> pyval \<Rightarrow> pyerr + pyval" where
  "commands_loop [] msg check = Inr check"
| "commands_loop (command # rest) msg check =
     (case py_subscript msg ''text'' of
        Inl e \<Rightarrow> Inl e
      | Inr t \<Rightarrow>
     (case py_in command t of
        Inl e \<Rightarrow> Inl e
      | Inr b \<Rightarrow>
     (case py_or check (PBool b) of
        Inl e \<Rightarrow> Inl e
      | Inr check' \<Rightarrow> commands_loop rest msg check')))"

text \<open>One \<open>if cond: check |= ...\<close> of the method: \<open>step\<close> runs when \<open>cond\<close> is set.\<close>

definition guarded :: "'a option \<Rightarrow> ('a \<Rightarrow> bool) \<Rightarrow> ('a \<Rightarrow> pyval \<Rightarrow> pyerr + pyval) \<Rightarrow>
    pyerr + pyval \<Rightarrow> pyerr + pyval" where
  "guarded field nonempty step acc =
     (case acc of
        Inl e \<Rightarrow> Inl e
      | Inr check \<Rightarrow>
          (case field of
             Some x \<Rightarrow> if nonempty x then step x check else Inr check
           | None \<Rightarrow> Inr check))"

text \<open>\<open>MessageRule.check\<close>.\<close>

definition MessageRule_check :: "matcher \<Rightarrow> message_rule \<Rightarrow> event \<Rightarrow> pyerr + pyval" where
  "MessageRule_check re_match r ev =
     (case attr (type ev) of
        Inl e \<Rightarrow> Inl e
      | Inr t \<Rightarrow>
          if py_eq t (PStr ''message_new'') then
            (case attr (object ev) of
               Inl e \<Rightarrow> Inl e
             | Inr msg \<Rightarrow>
                 (let check0 = Inr (PBool False);
                      check1 = guarded (attachment_types r) (\<lambda>ats. ats \<noteq> [])
                                 (\<lambda>ats check. ior check (attachment_cond ats msg)) check0;
                      check2 = guarded (payload r) (\<lambda>p. p \<noteq> [])
                                 (\<lambda>p check. ior check (payload_cond p msg)) check1;
                      check3 = guarded (func_text r) (\<lambda>f. True)
                                 (\<lambda>f check. ior check (f ev)) check2;
                      check4 = guarded (func_msg r) (\<lambda>f. True)
                                 (\<lambda>f check. ior check (f ev)) check3;
                      check5 = guarded (regexp r) (\<lambda>p. p \<noteq> [])
                                 (\<lambda>p check. regexp_step re_match p msg check) check4;
                      check6 = guarded (commands r) (\<lambda>cs. cs \<noteq> [])
                                 (\<lambda>cs check. commands_loop cs msg check) check5
                  in check6))
          else Inr (PBool False))"

fun rule_check :: "matcher \<Rightarrow> rule \<Rightarrow> event \<Rightarrow> pyerr + pyval" where
  "rule_check re_match (TypeRule rtype func) ev = TypeRule_check rtype func ev"
| "rule_check re_match (MessageRule r) ev = MessageRule_check re_match r ev"
| "rule_check re_match (CustomRule chk) ev = chk ev"






section \<open>Handlers\<close>

text \<open>
  What running the program does to the outside is recorded as a list of actions, in the
  order they happen: the request for a polling server, a poll request (the three values
  substituted into the URL template; the URL text itself is not built), the call of a
  handler's callback, and the warning for an event no handler took.
\<close>

datatype action =
    GetLongPollServer int
  | Poll pyval pyval pyval
  | Invoke string event
  | Warning pyval

text \<open>
  A callback is a named function; calling it either returns or raises. What else it does
  is the callback's own business and is recorded as the action \<open>Invoke\<close>.
\<close>

datatype callback = Callback (cb_name: string) (cb_raises: "event \<Rightarrow> pyerr option")

record handler =
  func :: callback
  rule :: rule

text \<open>\<open>Handler.handle\<close>: the actions performed, and the returned value or the exception.\<close>

definition Handler_handle :: "matcher \<Rightarrow> handler \<Rightarrow> event \<Rightarrow> action list \<times> (pyerr + bool)" where
  "Handler_handle re_match h ev =
     (case rule_check re_match (rule h) ev of
        Inl e \<Rightarrow> ([], Inl e)
      | Inr c \<Rightarrow>
          if truthy c then
            (case cb_raises (func h) ev of
               Some e \<Rightarrow> ([Invoke (cb_name (func h)) ev], Inl e)
             | None \<Rightarrow> ([Invoke (cb_name (func h)) ev], Inr True))
          else ([], Inr False))"

section \<open>VKBot: registration\<close>

text \<open>
  \<open>_handlers\<close> is an attribute of the class \<open>VKBot\<close>. The constructor assigns
  \<open>v\<close>, \<open>api\<close>, \<open>logger\<close> and \<open>group_id\<close> to the instance and never
  \<open>_handlers\<close>, so \<open>self._handlers\<close> reads the one list of the class whatever
  \<open>self\<close> is. The class state is passed explicitly; the API client and the logger are
  outside the model.
\<close>

record vkbot =
  v :: string
  self_group_id :: int

record vkbot_class =
  handlers :: "handler list"

definition VKBot :: "int \<Rightarrow> string \<Rightarrow> vkbot" where
  "VKBot gid ver = \<lparr>v = ver, self_group_id = gid\<rparr>"

text \<open>
  \<open>handle_message(**message_rule_args)(func)\<close>: the decorator appends to the class's
  list and returns \<open>func\<close>.
\<close>

definition handle_message ::
    "vkbot \<Rightarrow> message_rule \<Rightarrow> callback \<Rightarrow> vkbot_class \<Rightarrow> callback \<times> vkbot_class" where
  "handle_message self message_rule_args f cls =
     (f, cls\<lparr>handlers := handlers cls @ [\<lparr>func = f, rule = MessageRule message_rule_args\<rparr>]\<rparr>)"

text \<open>\<open>handle_event(rule, event_type)(func)\<close>. A rule object is truthy.\<close>

definition handle_event ::
    "vkbot \<Rightarrow> rule option \<Rightarrow> pyval \<Rightarrow> callback \<Rightarrow> vkbot_class \<Rightarrow> callback \<times> vkbot_class" where
  "handle_event self rl event_type f cls =
     (case rl of
        Some r \<Rightarrow> (f, cls\<lparr>handlers := handlers cls @ [\<lparr>func = f, rule = r\<rparr>]\<rparr>)
      | None \<Rightarrow>
          (f, cls\<lparr>handlers := handlers cls @ [\<lparr>func = f, rule = TypeRule event_type None\<rparr>]\<rparr>))"

section \<open>VKBot: the polling loop\<close>

text \<open>
  \<open>for handler in self._handlers: if handler.handle(ev): break\<close>, with the
  \<open>else\<close> branch of the loop: the warning formats \<open>ev.type\<close>.
\<close>

fun offer :: "matcher \<Rightarrow> handler list \<Rightarrow> event \<Rightarrow> action list \<times> pyerr option" where
  "offer re_match [] ev =
     (case attr (type ev) of
        Inl e \<Rightarrow> ([], Some e)
      | Inr t \<Rightarrow> ([Warning t], None))"
| "offer re_match (h # hs) ev =
     (case Handler_handle re_match h ev of
        (acts, Inl e) \<Rightarrow> (acts, Some e)
      | (acts, Inr True) \<Rightarrow> (acts, None)
      | (acts, Inr False) \<Rightarrow>
          (case offer re_match hs ev of (acts', r) \<Rightarrow> (acts @ acts', r)))"

text \<open>\<open>for i, event in zip(count(), updates)\<close>: one dispatch pass per raw update.\<close>

fun dispatch_updates :: "matcher \<Rightarrow> handler list \<Rightarrow> pyval list \<Rightarrow> action list \<times> pyerr option" where
  "dispatch_updates re_match hs [] = ([], None)"
| "dispatch_updates re_match hs (u # us) =
     (case Event u of
        Inl e \<Rightarrow> ([], Some e)
      | Inr ev \<Rightarrow>
          (case offer re_match hs ev of
             (acts, Some e) \<Rightarrow> (acts, Some e)
           | (acts, None) \<Rightarrow>
               (case dispatch_updates re_match hs us of (acts', r) \<Rightarrow> (acts @ acts', r))))"

text \<open>
  The loop talks to two outside parties: the API client, whose successive answers to
  \<open>getLongPollServer\<close> are the list \<open>servers\<close>, and the polling server, whose
  successive answers to the GET request (after \<open>json()\<close>) are the list
  \<open>responses\<close>; an answer \<open>Inl e\<close> is a call that raised \<open>e\<close>. The loop
  returns, raises, or is left waiting for an answer that the lists do not hold.
\<close>

datatype outcome = Returned | Raised pyerr | Waiting

datatype phase = AcquireServer | PollBatch pyval pyval pyval

definition emit :: "action list \<Rightarrow> action list \<times> outcome \<Rightarrow> action list \<times> outcome" where
  "emit acts res = (acts @ fst res, snd res)"

fun run_loop :: "matcher \<Rightarrow> vkbot \<Rightarrow> handler list \<Rightarrow> bool \<Rightarrow> phase \<Rightarrow>
    (pyerr + pyval) list \<Rightarrow> (pyerr + pyval) list \<Rightarrow> action list \<times> outcome" where
  "run_loop re_match self hs reload AcquireServer [] responses =
     ([GetLongPollServer (self_group_id self)], Waiting)"
| "run_loop re_match self hs reload AcquireServer (Inl e # servers) responses =
     ([GetLongPollServer (self_group_id self)], Raised e)"
| "run_loop re_match self hs reload AcquireServer (Inr s # servers) responses =
     (case py_subscript s ''ts'' of
        Inl e \<Rightarrow> ([GetLongPollServer (self_group_id self)], Raised e)
      | Inr ts \<Rightarrow>
     (case py_subscript s ''server'' of
        Inl e \<Rightarrow> ([GetLongPollServer (self_group_id self)], Raised e)
      | Inr server \<Rightarrow>
     (case py_subscript s ''key'' of
        Inl e \<Rightarrow> ([GetLongPollServer (self_group_id self)], Raised e)
      | Inr key \<Rightarrow>
          emit [GetLongPollServer (self_group_id self)]
            (run_loop re_match self hs reload (PollBatch server key ts) servers responses))))"
| "run_loop re_match self hs reload (PollBatch server key ts) servers [] =
     ([Poll server key ts], Waiting)"
| "run_loop re_match self hs reload (PollBatch server key ts) servers (Inl e # responses) =
     ([Poll server key ts], Raised e)"
| "run_loop re_match self hs reload (PollBatch server key ts) servers (Inr rq # responses) =
     (case py_get rq ''failed'' PNone of
        Inl e \<Rightarrow> ([Poll server key ts], Raised e)
      | Inr failed \<Rightarrow>
          if truthy failed then
            (if py_eq failed (PInt 1) then
               emit [Poll server key ts]
                 (run_loop re_match self hs reload (PollBatch server key ts) servers responses)
             else if reload then
               emit [Poll server key ts]
                 (run_loop re_match self hs reload AcquireServer servers responses)
             else ([Poll server key ts], Returned))
          else
            (case py_get rq ''updates'' (PList []) of
               Inl e \<Rightarrow> ([Poll server key ts], Raised e)
             | Inr updates \<Rightarrow>
            (case py_iter updates of
               Inl e \<Rightarrow> ([Poll server key ts], Raised e)
             | Inr us \<Rightarrow>
            (case dispatch_updates re_match hs us of
               (acts, Some e) \<Rightarrow> (Poll server key ts # acts, Raised e)
             | (acts, None) \<Rightarrow>
            (case py_get rq ''ts'' (PInt 1) of
               Inl e \<Rightarrow> (Poll server key ts # acts, Raised e)
             | Inr ts' \<Rightarrow>
                 emit (Poll server key ts # acts)
                   (run_loop re_match self hs reload (PollBatch server key ts') servers
                      responses))))))"

text \<open>\<open>VKBot.run(threaded, reload)\<close>; \<open>threaded\<close> is not used by the method.\<close>

definition run :: "matcher \<Rightarrow> vkbot \<Rightarrow> vkbot_class \<Rightarrow> bool \<Rightarrow> bool \<Rightarrow>
    (pyerr + pyval) list \<Rightarrow> (pyerr + pyval) list \<Rightarrow> action list \<times> outcome" where
  "run re_match self cls threaded reload servers responses =
     run_loop re_match self (handlers cls) reload AcquireServer servers responses"

section \<open>Observations and sample inputs\<close>

text \<open>A call is truthy when it returns, without raising, a value that tests true.\<close>

definition returns_truthy :: "pyerr + pyval \<Rightarrow> bool" where
  "returns_truthy res = (case res of Inl e \<Rightarrow> False | Inr c \<Rightarrow> truthy c)"

text \<open>\<open>MessageRule()\<close>: every keyword argument at its default \<open>None\<close>.\<close>

definition no_conditions :: message_rule where
  "no_conditions = \<lparr>attachment_types = None, payload = None, func_text = None,
     func_msg = None, regexp = None, commands = None\<rparr>"

text \<open>Two matchers for concrete runs: one never finds a match, one always does.\<close>

definition never_matches :: matcher where
  "never_matches p t = Inr False"

definition always_matches :: matcher where
  "always_matches p t = Inr True"

text \<open>The event built from \<open>{'type': 'message_new', 'object': msg}\<close>.\<close>

definition message_new_event :: "pyval \<Rightarrow> event" where
  "message_new_event msg = \<lparr>type = Some (PStr ''message_new''), object = Some msg,
     group_id = Some PNone, time_created = Some ()\<rparr>"


text \<open>A message with a text and one photo, a rule with three conditions, another event.\<close>

definition sample_message :: pyval where
  "sample_message = PDict [(''text'', PStr ''/start now''),
     (''attachments'', PList [PDict [(''type'', PStr ''photo'')]])]"

definition sample_rule :: message_rule where
  "sample_rule = no_conditions\<lparr>attachment_types := Some [PStr ''photo''],
     func_text := Some (\<lambda>ev. Inr (PBool False)), commands := Some [PStr ''/start'']\<rparr>"


text \<open>
  Callbacks that return without raising, two handlers built on them, and the class with
  nothing registered.
\<close>

definition quiet :: "string \<Rightarrow> callback" where
  "quiet name = Callback name (\<lambda>ev. None)"

definition message_handler :: "string \<Rightarrow> handler" where
  "message_handler name = \<lparr>func = quiet name, rule = TypeRule (PStr ''message_new'') None\<rparr>"

definition join_handler :: "string \<Rightarrow> handler" where
  "join_handler name = \<lparr>func = quiet name, rule = TypeRule (PStr ''group_join'') None\<rparr>"

definition empty_class :: vkbot_class where
  "empty_class = \<lparr>handlers = []\<rparr>"

text \<open>The cursors of the poll requests among a list of actions, in order.\<close>

fun poll_cursors :: "action list \<Rightarrow> pyval list" where
  "poll_cursors [] = []"
| "poll_cursors (Poll server key ts # acts) = ts # poll_cursors acts"
| "poll_cursors (a # acts) = poll_cursors acts"

text \<open>
  Of a poll response: \<open>rq.get('ts', 1)\<close>; the updates the loop iterates over; and
  whether the response is a success, that is, it has no truthy \<open>'failed'\<close> and the
  dispatch of its batch raises nothing.
\<close>

definition response_ts :: "pyval \<Rightarrow> pyval" where
  "response_ts rq = (case py_get rq ''ts'' (PInt 1) of Inr ts \<Rightarrow> ts | Inl e \<Rightarrow> PInt 1)"

definition updates_of :: "pyval \<Rightarrow> pyval list" where
  "updates_of rq =
     (case py_get rq ''updates'' (PList []) of
        Inl e \<Rightarrow> []
      | Inr updates \<Rightarrow> (case py_iter updates of Inl e \<Rightarrow> [] | Inr us \<Rightarrow> us))"

definition successful :: "matcher \<Rightarrow> handler list \<Rightarrow> pyval \<Rightarrow> bool" where
  "successful re_match hs rq =
     (case py_get rq ''failed'' PNone of
        Inl e \<Rightarrow> False
      | Inr failed \<Rightarrow>
          \<not> truthy failed \<and>
          (case py_get rq ''updates'' (PList []) of
             Inl e \<Rightarrow> False
           | Inr updates \<Rightarrow>
               (case py_iter updates of
                  Inl e \<Rightarrow> False
                | Inr us \<Rightarrow> snd (dispatch_updates re_match hs us) = None)))"

text \<open>A polling-server descriptor and two poll responses.\<close>

definition sample_server :: pyval where
  "sample_server = PDict [(''server'', PStr ''https://lp.vk.com/wh1''), (''key'', PStr ''k''),
     (''ts'', PInt 10)]"

definition sample_batch :: pyval where
  "sample_batch = PDict [(''ts'', PInt 11),
     (''updates'', PList [PDict [(''type'', PStr ''message_new''), (''object'', PDict [])]])]"

definition sample_batch_without_ts :: pyval where
  "sample_batch_without_ts = PDict [(''updates'', PList [])]"

section \<open>Strings\<close>

lemma py_str_in_iff: "py_str_in c t \<longleftrightarrow> (\<exists>ps ss. t = ps @ c @ ss)"
proof (induction t)
  case Nil
  then show ?case by simp
next
  case (Cons x xs)
  show ?case
  proof
    assume "py_str_in c (x # xs)"
    then consider "prefix c (x # xs)" | "py_str_in c xs" by auto
    then show "\<exists>ps ss. x # xs = ps @ c @ ss"
    proof cases
      case 1
      then obtain ss where "x # xs = c @ ss" by (auto simp: prefix_def)
      then have "x # xs = [] @ c @ ss" by simp
      then show ?thesis by blast
    next
      case 2
      with Cons obtain ps ss where "xs = ps @ c @ ss" by blast
      then have "x # xs = (x # ps) @ c @ ss" by simp
      then show ?thesis by blast
    qed
  next
    assume "\<exists>ps ss. x # xs = ps @ c @ ss"
    then obtain ps ss where e: "x # xs = ps @ c @ ss" by blast
    show "py_str_in c (x # xs)"
    proof (cases ps)
      case Nil
      with e have "prefix c (x # xs)" by (simp add: prefix_def)
      then show ?thesis by simp
    next
      case (Cons p ps')
      with e have "xs = ps' @ c @ ss" by simp
      with Cons.IH have "py_str_in c xs" by blast
      then show ?thesis by simp
    qed
  qed
qed

section \<open>TypeRule\<close>

text \<open>
  C6. For every event and every \<open>TypeRule\<close>, \<open>check\<close> is truthy exactly when the
  event's type equals the rule's configured type and the rule has no refinement function
  or the refinement function applied to the event is truthy. An event whose \<open>type\<close>
  slot is unset equals nothing, and a refinement that raises is not truthy.
\<close>

theorem TypeRule_check_truthy_iff:
  "returns_truthy (TypeRule_check rtype refine ev) \<longleftrightarrow>
     (\<exists>t. type ev = Some t \<and> py_eq rtype t) \<and>
     (refine = None \<or> (\<exists>f. refine = Some f \<and> returns_truthy (f ev)))"
  by (cases "type ev"; cases refine)
     (simp_all add: TypeRule_check_def returns_truthy_def attr_def)

section \<open>MessageRule: the commands condition\<close>

lemma commands_loop_strings:
  "py_subscript msg ''text'' = Inr (PStr t) \<Longrightarrow>
   commands_loop (map PStr cs) msg (PBool b) = Inr (PBool (b \<or> (\<exists>c\<in>set cs. py_str_in c t)))"
  by (induction cs arbitrary: b) auto

text \<open>
  C9. A \<open>MessageRule\<close> with only \<open>commands\<close> configured, checked on a
  \<open>message_new\<close> event whose message has a string \<open>text\<close>, returns whether some
  configured command occurs in the text as a substring. The witness is the scenario:
  \<open>commands=["/start"]\<close> gives \<open>True\<close> on "/start now" and \<open>False\<close> on "start".
\<close>

theorem commands_condition_substring:
  assumes "type ev = Some (PStr ''message_new'')"
    and "object ev = Some (PDict d)"
    and "map_of d ''text'' = Some (PStr t)"
    and "cs \<noteq> []"
  shows "MessageRule_check re_match (no_conditions\<lparr>commands := Some (map PStr cs)\<rparr>) ev =
           Inr (PBool (\<exists>c\<in>set cs. \<exists>ps ss. t = ps @ c @ ss))"
proof -
  have "py_subscript (PDict d) ''text'' = Inr (PStr t)"
    using assms(3) by simp
  then have "commands_loop (map PStr cs) (PDict d) (PBool False) =
      Inr (PBool (\<exists>c\<in>set cs. py_str_in c t))"
    by (simp add: commands_loop_strings)
  then show ?thesis
    using assms(1,2,4)
    by (simp add: MessageRule_check_def no_conditions_def attr_def guarded_def Let_def
        py_str_in_iff)
qed

theorem commands_condition_substring_witness:
  "MessageRule_check never_matches (no_conditions\<lparr>commands := Some [PStr ''/start'']\<rparr>)
     (message_new_event (PDict [(''text'', PStr ''/start now'')])) = Inr (PBool True) \<and>
   MessageRule_check never_matches (no_conditions\<lparr>commands := Some [PStr ''/start'']\<rparr>)
     (message_new_event (PDict [(''text'', PStr ''start'')])) = Inr (PBool False)"
proof -
  have a: "(\<exists>c\<in>set [''/start'']. \<exists>ps ss. ''/start now'' = ps @ c @ ss) = True"
    using py_str_in_iff [of "''/start''" "''/start now''"] by simp
  have b: "(\<exists>c\<in>set [''/start'']. \<exists>ps ss. ''start'' = ps @ c @ ss) = False"
    using py_str_in_iff [of "''/start''" "''start''"] by simp
  show ?thesis
    using commands_condition_substring [of "message_new_event (PDict [(''text'', PStr ''/start now'')])"
        "[(''text'', PStr ''/start now'')]" "''/start now''" "[''/start'']" never_matches]
      commands_condition_substring [of "message_new_event (PDict [(''text'', PStr ''start'')])"
        "[(''text'', PStr ''start'')]" "''start''" "[''/start'']" never_matches]
    unfolding a b
    by (simp add: message_new_event_def)
qed

section \<open>Rules: when check returns a boolean\<close>


lemma ior_bool: "rhs = Inr (PBool c) \<Longrightarrow> ior (PBool b) rhs = Inr (PBool (b \<or> c))"
  by (simp add: ior_def)
















section \<open>MessageRule: the regexp condition\<close>

lemma guarded_Inl: "guarded field nonempty step (Inl e) = Inl e"
  by (simp add: guarded_def)

lemma regexp_step_raises: "\<exists>e. regexp_step re_match p msg check = Inl e"
  by (simp add: regexp_step_def split: sum.splits)

lemma regexp_condition_always_raises:
  assumes "type ev = Some (PStr ''message_new'')"
    and "regexp r = Some p" and "p \<noteq> []"
  shows "\<exists>e. MessageRule_check re_match r ev = Inl e"
proof (cases "object ev")
  case None
  with assms(1) show ?thesis
    by (simp add: MessageRule_check_def attr_def)
next
  case (Some msg)
  define check4 where "check4 =
     guarded (func_msg r) (\<lambda>f. True) (\<lambda>f check. ior check (f ev))
      (guarded (func_text r) (\<lambda>f. True) (\<lambda>f check. ior check (f ev))
        (guarded (payload r) (\<lambda>p. p \<noteq> []) (\<lambda>p check. ior check (payload_cond p msg))
          (guarded (attachment_types r) (\<lambda>ats. ats \<noteq> [])
            (\<lambda>ats check. ior check (attachment_cond ats msg)) (Inr (PBool False)))))"
  have "\<exists>e. guarded (regexp r) (\<lambda>p. p \<noteq> [])
      (\<lambda>p check. regexp_step re_match p msg check) check4 = Inl e"
  proof (cases check4)
    case (Inl e)
    then show ?thesis by (simp add: guarded_Inl)
  next
    case (Inr c)
    with assms(2,3) regexp_step_raises [of re_match p msg c] show ?thesis
      by (auto simp: guarded_def)
  qed
  then obtain e where "guarded (regexp r) (\<lambda>p. p \<noteq> [])
      (\<lambda>p check. regexp_step re_match p msg check) check4 = Inl e" by blast
  with assms(1) Some show ?thesis
    by (simp add: MessageRule_check_def attr_def Let_def check4_def guarded_Inl)
qed

text \<open>
  C7, at the failing input. With only \<open>regexp='hello'\<close> configured and the message
  text "hello world", the pattern matches, and \<open>check |= re.match(...)\<close> raises
  \<open>TypeError\<close>: \<open>check\<close> does not return the condition's truth value.
\<close>

theorem regexp_only_rule_raises:
  "MessageRule_check always_matches (no_conditions\<lparr>regexp := Some ''hello''\<rparr>)
     (message_new_event (PDict [(''text'', PStr ''hello world'')])) = Inl TypeError"
  by (simp add: MessageRule_check_def no_conditions_def message_new_event_def attr_def
      guarded_def Let_def regexp_step_def always_matches_def)

section \<open>MessageRule: no condition, one condition\<close>

text \<open>
  The other parts of C7 hold on the code: an event of another type gives \<open>False\<close>, a
  rule with no condition gives \<open>False\<close>, and a rule with one condition other than
  \<open>regexp\<close> gives that condition's value.
\<close>

lemma MessageRule_check_other_type:
  assumes "type ev = Some t" and "\<not> py_eq t (PStr ''message_new'')"
  shows "MessageRule_check re_match r ev = Inr (PBool False)"
  using assms by (simp add: MessageRule_check_def attr_def)

lemma MessageRule_check_no_conditions:
  assumes "type ev = Some (PStr ''message_new'')" and "object ev = Some msg"
  shows "MessageRule_check re_match no_conditions ev = Inr (PBool False)"
  using assms
  by (simp add: MessageRule_check_def no_conditions_def attr_def guarded_def Let_def)

lemma MessageRule_check_func_text_only:
  assumes "type ev = Some (PStr ''message_new'')" and "object ev = Some msg"
    and "f ev = Inr (PBool b)"
  shows "MessageRule_check re_match (no_conditions\<lparr>func_text := Some f\<rparr>) ev = Inr (PBool b)"
  using assms
  by (simp add: MessageRule_check_def no_conditions_def attr_def guarded_def Let_def ior_def)

lemma MessageRule_check_func_msg_only:
  assumes "type ev = Some (PStr ''message_new'')" and "object ev = Some msg"
    and "f ev = Inr (PBool b)"
  shows "MessageRule_check re_match (no_conditions\<lparr>func_msg := Some f\<rparr>) ev = Inr (PBool b)"
  using assms
  by (simp add: MessageRule_check_def no_conditions_def attr_def guarded_def Let_def ior_def)

lemma MessageRule_check_payload_only:
  assumes "type ev = Some (PStr ''message_new'')" and "object ev = Some (PDict d)"
    and "p \<noteq> []"
  shows "MessageRule_check re_match (no_conditions\<lparr>payload := Some p\<rparr>) ev =
           Inr (PBool (py_eq (case map_of d ''payload'' of None \<Rightarrow> PDict [] | Some x \<Rightarrow> x) (PDict p)))"
  using assms
  by (simp add: MessageRule_check_def no_conditions_def attr_def guarded_def Let_def ior_def
      payload_cond_def)

lemma attachment_flags_dicts:
  "\<forall>a\<in>set ds. map_of a ''type'' \<noteq> None \<Longrightarrow>
   \<exists>bs. attachment_flags ats (map PDict ds) = Inr bs \<and>
     list_ex (\<lambda>b. b) bs =
       (\<exists>a\<in>set ds. \<exists>ty. map_of a ''type'' = Some ty \<and> (\<exists>y\<in>set ats. py_eq y ty))"
proof (induction ds)
  case Nil
  then show ?case by simp
next
  case (Cons a ds)
  then obtain ty where ty: "map_of a ''type'' = Some ty" by auto
  from Cons obtain bs where bs: "attachment_flags ats (map PDict ds) = Inr bs"
    and ex: "list_ex (\<lambda>b. b) bs =
       (\<exists>a\<in>set ds. \<exists>ty. map_of a ''type'' = Some ty \<and> (\<exists>y\<in>set ats. py_eq y ty))"
    by auto
  from ty bs have "attachment_flags ats (map PDict (a # ds)) =
      Inr (list_ex (\<lambda>y. py_eq y ty) ats # bs)"
    by simp
  moreover have "list_ex (\<lambda>b. b) (list_ex (\<lambda>y. py_eq y ty) ats # bs) =
       (\<exists>a\<in>set (a # ds). \<exists>ty. map_of a ''type'' = Some ty \<and> (\<exists>y\<in>set ats. py_eq y ty))"
    using ty ex by (simp add: list_ex_iff)
  ultimately show ?case by blast
qed

lemma MessageRule_check_attachment_types_only:
  assumes "type ev = Some (PStr ''message_new'')" and "object ev = Some (PDict d)"
    and "ats \<noteq> []"
    and "map_of d ''attachments'' = Some (PList (map PDict ds))"
    and "\<forall>a\<in>set ds. map_of a ''type'' \<noteq> None"
  shows "MessageRule_check re_match (no_conditions\<lparr>attachment_types := Some ats\<rparr>) ev =
           Inr (PBool (\<exists>a\<in>set ds. \<exists>ty. map_of a ''type'' = Some ty \<and> (\<exists>y\<in>set ats. py_eq y ty)))"
proof -
  from attachment_flags_dicts [OF assms(5), of ats]
  obtain bs where "attachment_flags ats (map PDict ds) = Inr bs"
    and "list_ex (\<lambda>b. b) bs =
       (\<exists>a\<in>set ds. \<exists>ty. map_of a ''type'' = Some ty \<and> (\<exists>y\<in>set ats. py_eq y ty))"
    by blast
  with assms(1-4) show ?thesis
    by (simp add: MessageRule_check_def no_conditions_def attr_def guarded_def Let_def ior_def
      attachment_cond_def)
qed

section \<open>Dispatch: the first matching handler\<close>

lemma Handler_handle_match:
  assumes "returns_truthy (rule_check re_match (rule h) ev)"
  shows "Handler_handle re_match h ev =
           ([Invoke (cb_name (func h)) ev],
            case cb_raises (func h) ev of Some e \<Rightarrow> Inl e | None \<Rightarrow> Inr True)"
  using assms
  by (auto simp: Handler_handle_def returns_truthy_def split: sum.splits option.splits)

lemma Handler_handle_no_match:
  assumes "rule_check re_match (rule h) ev = Inr c" and "\<not> truthy c"
  shows "Handler_handle re_match h ev = ([], Inr False)"
  using assms by (simp add: Handler_handle_def)

lemma offer_match_head:
  assumes "returns_truthy (rule_check re_match (rule h) ev)"
  shows "offer re_match (h # rest) ev = ([Invoke (cb_name (func h)) ev], cb_raises (func h) ev)"
  by (simp add: Handler_handle_match [OF assms] split: option.splits)

lemma offer_after_match:
  assumes "returns_truthy (rule_check re_match (rule h1) ev)"
  shows "offer re_match (pre @ h1 # rest) ev = offer re_match (pre @ [h1]) ev"
proof (induction pre)
  case Nil
  show ?case by (simp only: append_Nil offer_match_head [OF assms])
next
  case (Cons p pre)
  then show ?case
    by (simp split: prod.splits sum.splits bool.splits)
qed

lemma offer_skips_non_matching:
  assumes "\<forall>h\<in>set pre. \<exists>c. rule_check re_match (rule h) ev = Inr c \<and> \<not> truthy c"
  shows "offer re_match (pre @ hs) ev = offer re_match hs ev"
  using assms
proof (induction pre)
  case Nil
  then show ?case by simp
next
  case (Cons p pre)
  then obtain c where "rule_check re_match (rule p) ev = Inr c" "\<not> truthy c" by auto
  then have "Handler_handle re_match p ev = ([], Inr False)"
    by (rule Handler_handle_no_match)
  with Cons show ?case by simp
qed

text \<open>
  C2, as the code has it. The event is offered to the handlers in registration order and
  the offering stops at the first handler whose rule matches: the handlers registered
  after a matching handler \<open>h1\<close> make no difference to the pass, so a later \<open>h2\<close> is
  never called; and when every handler registered before \<open>h1\<close> returns a falsy value
  from its check, the callback of \<open>h1\<close> is called once and no other callback is.
\<close>

theorem first_match_wins:
  assumes "returns_truthy (rule_check re_match (rule h1) ev)"
  shows "offer re_match (pre @ h1 # rest) ev = offer re_match (pre @ [h1]) ev \<and>
         ((\<forall>h\<in>set pre. \<exists>c. rule_check re_match (rule h) ev = Inr c \<and> \<not> truthy c) \<longrightarrow>
            fst (offer re_match (pre @ h1 # rest) ev) = [Invoke (cb_name (func h1)) ev])"
proof (intro conjI impI)
  show "offer re_match (pre @ h1 # rest) ev = offer re_match (pre @ [h1]) ev"
    by (rule offer_after_match [OF assms])
next
  assume "\<forall>h\<in>set pre. \<exists>c. rule_check re_match (rule h) ev = Inr c \<and> \<not> truthy c"
  then have "offer re_match (pre @ h1 # rest) ev = offer re_match (h1 # rest) ev"
    by (rule offer_skips_non_matching)
  then show "fst (offer re_match (pre @ h1 # rest) ev) = [Invoke (cb_name (func h1)) ev]"
    by (simp only: offer_match_head [OF assms] fst_conv)
qed

theorem first_match_wins_witness:
  "offer never_matches [join_handler ''cb0'', message_handler ''cb1'', message_handler ''cb2'']
       (message_new_event (PDict [])) =
     offer never_matches [join_handler ''cb0'', message_handler ''cb1'']
       (message_new_event (PDict [])) \<and>
   fst (offer never_matches [join_handler ''cb0'', message_handler ''cb1'', message_handler ''cb2'']
       (message_new_event (PDict []))) = [Invoke ''cb1'' (message_new_event (PDict []))]"
proof -
  have m: "returns_truthy (rule_check never_matches (rule (message_handler ''cb1''))
      (message_new_event (PDict [])))"
    by (simp add: message_handler_def message_new_event_def returns_truthy_def
        TypeRule_check_def attr_def)
  have n: "\<forall>h\<in>set [join_handler ''cb0'']. \<exists>c. rule_check never_matches (rule h)
      (message_new_event (PDict [])) = Inr c \<and> \<not> truthy c"
    by (simp add: join_handler_def message_new_event_def TypeRule_check_def attr_def)
  have nm: "cb_name (func (message_handler ''cb1'')) = ''cb1''"
    by (simp add: message_handler_def quiet_def)
  note w = first_match_wins [OF m, of "[join_handler ''cb0'']" "[message_handler ''cb2'']",
      unfolded nm, simplified append.simps]
  from w n show ?thesis by blast
qed

text \<open>
  C2 as stated fails for a list of three handlers that all match: \<open>cb1\<close> is
  registered before \<open>cb2\<close> and both match, but the callback called is \<open>cb0\<close>.
\<close>

theorem earlier_match_shadows_both:
  "returns_truthy (rule_check never_matches (rule (message_handler ''cb1''))
     (message_new_event (PDict []))) \<and>
   returns_truthy (rule_check never_matches (rule (message_handler ''cb2''))
     (message_new_event (PDict []))) \<and>
   offer never_matches [message_handler ''cb0'', message_handler ''cb1'', message_handler ''cb2'']
     (message_new_event (PDict [])) = ([Invoke ''cb0'' (message_new_event (PDict []))], None)"
  by (simp add: message_handler_def quiet_def message_new_event_def
      returns_truthy_def TypeRule_check_def attr_def Handler_handle_def)

section \<open>Registration\<close>

text \<open>
  C8, as the code has it. Each registration appends one handler at the end of the class's
  list and leaves the entries before it as they were; registering the same callback and
  rule a second time appends a second entry.
\<close>

theorem registration_appends:
  "handlers (snd (handle_message self args f cls)) =
     handlers cls @ [\<lparr>func = f, rule = MessageRule args\<rparr>] \<and>
   handlers (snd (handle_event self (Some r) event_type f cls)) =
     handlers cls @ [\<lparr>func = f, rule = r\<rparr>] \<and>
   handlers (snd (handle_event self None event_type f cls)) =
     handlers cls @ [\<lparr>func = f, rule = TypeRule event_type None\<rparr>] \<and>
   handlers (snd (handle_message self args f (snd (handle_message self args f cls)))) =
     handlers cls @ [\<lparr>func = f, rule = MessageRule args\<rparr>, \<lparr>func = f, rule = MessageRule args\<rparr>]"
  by (simp add: handle_message_def handle_event_def)

text \<open>
  C8 as stated fails: after the same registration is made twice on the empty list, the
  list differs from the list after the first registration.
\<close>

theorem registering_twice_adds_twice:
  "handlers (snd (handle_message (VKBot 1 ''5.80'') no_conditions (quiet ''cb'')
      (snd (handle_message (VKBot 1 ''5.80'') no_conditions (quiet ''cb'') empty_class)))) \<noteq>
   handlers (snd (handle_message (VKBot 1 ''5.80'') no_conditions (quiet ''cb'') empty_class))"
  by (simp add: handle_message_def empty_class_def)

section \<open>The polling loop: failure codes\<close>

lemma poll_cursors_append: "poll_cursors (xs @ ys) = poll_cursors xs @ poll_cursors ys"
  by (induction xs rule: poll_cursors.induct) simp_all

lemma run_loop_poll_first:
  "\<exists>acts out. run_loop re_match self hs reload (PollBatch server key ts) servers responses =
     (Poll server key ts # acts, out)"
proof (cases responses)
  case Nil
  then show ?thesis by simp
next
  case (Cons r rs)
  show ?thesis
  proof (cases r)
    case (Inl e)
    with Cons show ?thesis by simp
  next
    case (Inr rq)
    with Cons show ?thesis
      by (auto simp: emit_def split: sum.splits prod.splits option.splits)
  qed
qed

lemma run_loop_acquire_first:
  "\<exists>acts out. run_loop re_match self hs reload AcquireServer servers responses =
     (GetLongPollServer (self_group_id self) # acts, out) \<and>
     (acts = [] \<or> (\<exists>s k t acts'. acts = Poll s k t # acts'))"
proof (cases servers)
  case Nil
  then show ?thesis by simp
next
  case (Cons x xs)
  show ?thesis
  proof (cases x)
    case (Inl e)
    with Cons show ?thesis by simp
  next
    case (Inr s)
    show ?thesis
    proof (cases "py_subscript s ''ts''")
      case (Inl e)
      with Cons Inr show ?thesis by simp
    next
      case ts: (Inr ts)
      show ?thesis
      proof (cases "py_subscript s ''server''")
        case (Inl e)
        with Cons Inr ts show ?thesis by simp
      next
        case sv: (Inr server)
        show ?thesis
        proof (cases "py_subscript s ''key''")
          case (Inl e)
          with Cons Inr ts sv show ?thesis by simp
        next
          case k: (Inr key)
          from run_loop_poll_first [of re_match self hs reload server key ts xs responses]
          obtain acts out where "run_loop re_match self hs reload (PollBatch server key ts) xs responses =
             (Poll server key ts # acts, out)" by blast
          with Cons Inr ts sv k show ?thesis by (simp add: emit_def)
        qed
      qed
    qed
  qed
qed

text \<open>
  C3. When the response to a poll carries failure code 1, the loop goes on in the same
  polling session: it polls again with the same server, key and cursor, it asks for no
  new polling server in between, and the answers of the API client are left untouched.
\<close>

theorem failure_code_1_retries_same_cursor:
  assumes "map_of d ''failed'' = Some failed" and "py_eq failed (PInt 1)"
  shows "run_loop re_match self hs reload (PollBatch server key ts) servers
           (Inr (PDict d) # responses) =
         emit [Poll server key ts]
           (run_loop re_match self hs reload (PollBatch server key ts) servers responses) \<and>
         (\<exists>acts out. run_loop re_match self hs reload (PollBatch server key ts) servers
           (Inr (PDict d) # responses) = (Poll server key ts # Poll server key ts # acts, out))"
proof -
  from assms(2) have t: "truthy failed"
    by (cases failed) (auto split: if_splits)
  with assms have step: "run_loop re_match self hs reload (PollBatch server key ts) servers
           (Inr (PDict d) # responses) =
         emit [Poll server key ts]
           (run_loop re_match self hs reload (PollBatch server key ts) servers responses)"
    by simp
  from run_loop_poll_first [of re_match self hs reload server key ts servers responses]
  obtain acts out where "run_loop re_match self hs reload (PollBatch server key ts) servers responses =
     (Poll server key ts # acts, out)" by blast
  then have "emit [Poll server key ts]
      (run_loop re_match self hs reload (PollBatch server key ts) servers responses) =
     (Poll server key ts # Poll server key ts # acts, out)"
    by (simp only: emit_def fst_conv snd_conv append_Cons append_Nil)
  with step show ?thesis by (simp only: simp_thms) blast
qed

theorem failure_code_1_retries_same_cursor_witness:
  "run_loop never_matches (VKBot 1 ''5.80'') [] False (PollBatch (PStr ''s'') (PStr ''k'') (PInt 10))
     [] [Inr (PDict [(''failed'', PInt 1)])] =
   ([Poll (PStr ''s'') (PStr ''k'') (PInt 10), Poll (PStr ''s'') (PStr ''k'') (PInt 10)], Waiting)"
  using failure_code_1_retries_same_cursor [of "[(''failed'', PInt 1)]" "PInt 1" never_matches
      "VKBot 1 ''5.80''" "[]" False "PStr ''s''" "PStr ''k''" "PInt 10" "[]" "[]"]
  by (simp add: emit_def)

text \<open>
  C4, as the code has it. When the response carries a failure code other than 1, the loop
  leaves the polling session. Started with \<open>reload=True\<close> it asks for a polling server
  once, and what follows that request, if anything, is a poll request; started with
  \<open>reload=False\<close> it returns without asking.
\<close>

theorem other_failure_code_reacquires_when_reload:
  assumes "map_of d ''failed'' = Some failed" and "truthy failed" and "\<not> py_eq failed (PInt 1)"
  shows "run_loop re_match self hs reload (PollBatch server key ts) servers
           (Inr (PDict d) # responses) =
         (if reload then
            emit [Poll server key ts]
              (run_loop re_match self hs reload AcquireServer servers responses)
          else ([Poll server key ts], Returned)) \<and>
         (reload \<longrightarrow>
           (\<exists>acts out. run_loop re_match self hs reload (PollBatch server key ts) servers
              (Inr (PDict d) # responses) =
                (Poll server key ts # GetLongPollServer (self_group_id self) # acts, out) \<and>
              (acts = [] \<or> (\<exists>s k t acts'. acts = Poll s k t # acts'))))"
proof -
  from assms have step: "run_loop re_match self hs reload (PollBatch server key ts) servers
           (Inr (PDict d) # responses) =
         (if reload then
            emit [Poll server key ts]
              (run_loop re_match self hs reload AcquireServer servers responses)
          else ([Poll server key ts], Returned))"
    by simp
  show ?thesis
  proof (intro conjI impI)
    show "run_loop re_match self hs reload (PollBatch server key ts) servers
           (Inr (PDict d) # responses) =
         (if reload then
            emit [Poll server key ts]
              (run_loop re_match self hs reload AcquireServer servers responses)
          else ([Poll server key ts], Returned))"
      by (rule step)
  next
    assume reload
    from run_loop_acquire_first [of re_match self hs reload servers responses]
    obtain acts out where acq: "run_loop re_match self hs reload AcquireServer servers responses =
       (GetLongPollServer (self_group_id self) # acts, out)"
       and shape: "acts = [] \<or> (\<exists>s k t acts'. acts = Poll s k t # acts')" by blast
    from step \<open>reload\<close> have "run_loop re_match self hs reload (PollBatch server key ts) servers
           (Inr (PDict d) # responses) =
         emit [Poll server key ts]
           (run_loop re_match self hs reload AcquireServer servers responses)"
      by (simp only: if_True)
    also have "\<dots> = (Poll server key ts # GetLongPollServer (self_group_id self) # acts, out)"
      by (simp only: acq emit_def fst_conv snd_conv append_Cons append_Nil)
    finally show "\<exists>acts out. run_loop re_match self hs reload (PollBatch server key ts) servers
              (Inr (PDict d) # responses) =
                (Poll server key ts # GetLongPollServer (self_group_id self) # acts, out) \<and>
              (acts = [] \<or> (\<exists>s k t acts'. acts = Poll s k t # acts'))"
      using shape by blast
  qed
qed

theorem other_failure_code_reacquires_when_reload_witness:
  "run_loop never_matches (VKBot 1 ''5.80'') [] True (PollBatch (PStr ''s'') (PStr ''k'') (PInt 10))
     [Inr sample_server] [Inr (PDict [(''failed'', PInt 2)])] =
   ([Poll (PStr ''s'') (PStr ''k'') (PInt 10), GetLongPollServer 1,
     Poll (PStr ''https://lp.vk.com/wh1'') (PStr ''k'') (PInt 10)], Waiting)"
  using other_failure_code_reacquires_when_reload [of "[(''failed'', PInt 2)]" "PInt 2" never_matches
      "VKBot 1 ''5.80''" "[]" True "PStr ''s''" "PStr ''k''" "PInt 10" "[Inr sample_server]" "[]"]
  by (simp add: emit_def sample_server_def VKBot_def)

text \<open>
  C4 as stated fails for the default \<open>reload=False\<close>: after failure code 2 the method
  returns; it asks for no second polling server and polls no more, though a server and a
  response are at hand.
\<close>

theorem other_failure_code_returns_without_reload:
  "run never_matches (VKBot 1 ''5.80'') empty_class False False
     [Inr sample_server, Inr sample_server]
     [Inr (PDict [(''failed'', PInt 2)]), Inr (PDict [])] =
   ([GetLongPollServer 1, Poll (PStr ''https://lp.vk.com/wh1'') (PStr ''k'') (PInt 10)], Returned)"
  by (simp add: run_def empty_class_def sample_server_def VKBot_def emit_def)

section \<open>The polling loop: the cursor\<close>

lemma poll_cursors_Handler_handle: "poll_cursors (fst (Handler_handle re_match h ev)) = []"
  by (simp add: Handler_handle_def split: sum.splits option.splits)

lemma poll_cursors_offer: "poll_cursors (fst (offer re_match hs ev)) = []"
proof (induction hs)
  case Nil
  show ?case by (simp add: attr_def split: option.splits)
next
  case (Cons h hs)
  obtain acts r where hh: "Handler_handle re_match h ev = (acts, r)"
    by (cases "Handler_handle re_match h ev")
  with poll_cursors_Handler_handle [of re_match h ev] have a: "poll_cursors acts = []" by simp
  obtain acts' r' where o: "offer re_match hs ev = (acts', r')"
    by (cases "offer re_match hs ev")
  with Cons have b: "poll_cursors acts' = []" by simp
  from hh o a b show ?case
    by (simp add: poll_cursors_append split: sum.splits bool.splits)
qed

lemma poll_cursors_dispatch_updates:
  "poll_cursors (fst (dispatch_updates re_match hs us)) = []"
proof (induction us)
  case Nil
  show ?case by simp
next
  case (Cons u us)
  show ?case
  proof (cases "Event u")
    case (Inl e)
    then show ?thesis by simp
  next
    case (Inr ev)
    obtain acts r where o: "offer re_match hs ev = (acts, r)"
      by (cases "offer re_match hs ev")
    with poll_cursors_offer [of re_match hs ev] have a: "poll_cursors acts = []" by simp
    obtain acts' r' where d: "dispatch_updates re_match hs us = (acts', r')"
      by (cases "dispatch_updates re_match hs us")
    with Cons have b: "poll_cursors acts' = []" by simp
    from Inr o d a b show ?thesis
      by (simp add: poll_cursors_append split: option.splits)
  qed
qed

lemma successful_poll_step:
  assumes "successful re_match hs rq"
  shows "run_loop re_match self hs reload (PollBatch server key ts) servers (Inr rq # responses) =
         emit (Poll server key ts # fst (dispatch_updates re_match hs (updates_of rq)))
           (run_loop re_match self hs reload (PollBatch server key (response_ts rq)) servers
              responses)"
proof -
  from assms obtain d where d: "rq = PDict d"
    by (cases rq) (simp_all add: successful_def)
  from assms d obtain us where us: "py_iter (case map_of d ''updates'' of None \<Rightarrow> PList [] | Some x \<Rightarrow> x) = Inr us"
    and ok: "snd (dispatch_updates re_match hs us) = None"
    and nf: "\<not> truthy (case map_of d ''failed'' of None \<Rightarrow> PNone | Some x \<Rightarrow> x)"
    by (auto simp: successful_def split: sum.splits)
  obtain acts where da: "dispatch_updates re_match hs us = (acts, None)"
    using ok by (cases "dispatch_updates re_match hs us") simp
  from us have u: "updates_of (PDict d) = us"
    by (simp add: updates_of_def)
  have r: "response_ts (PDict d) = (case map_of d ''ts'' of None \<Rightarrow> PInt 1 | Some x \<Rightarrow> x)"
    by (simp add: response_ts_def)
  show ?thesis
    unfolding d u r using us nf da by simp
qed

lemma cursors_of_successful_polls:
  assumes "\<forall>rq\<in>set rqs. successful re_match hs rq"
  shows "take (Suc (length rqs))
           (poll_cursors (fst (run_loop re_match self hs reload (PollBatch server key ts) servers
              (map Inr rqs @ rest)))) =
         ts # map response_ts rqs"
  using assms
proof (induction rqs arbitrary: ts)
  case Nil
  from run_loop_poll_first [of re_match self hs reload server key ts servers rest]
  obtain acts out where "run_loop re_match self hs reload (PollBatch server key ts) servers rest =
     (Poll server key ts # acts, out)" by blast
  then show ?case by simp
next
  case (Cons rq rqs)
  then have s: "successful re_match hs rq" and rest: "\<forall>rq\<in>set rqs. successful re_match hs rq"
    by simp_all
  have "poll_cursors (fst (run_loop re_match self hs reload (PollBatch server key ts) servers
            (map Inr (rq # rqs) @ rest))) =
        ts # poll_cursors (fst (run_loop re_match self hs reload
            (PollBatch server key (response_ts rq)) servers (map Inr rqs @ rest)))"
    using successful_poll_step [OF s, of self reload server key ts servers "map Inr rqs @ rest"]
    by (simp add: emit_def poll_cursors_append poll_cursors_dispatch_updates del: run_loop.simps)
  with Cons.IH [OF rest, of "response_ts rq"] show ?case
    by (simp del: run_loop.simps)
qed

text \<open>
  C5. Over any number of successive successful polls, the cursors of the requests are the
  initial cursor followed by the \<open>ts\<close> of each response in turn. For each of the
  responses, the loop first performs the actions of the whole batch and then goes on
  polling with the response's \<open>ts\<close>, which is 1 when the response has no \<open>'ts'\<close>.
\<close>

theorem cursor_follows_response_ts:
  assumes "\<forall>rq\<in>set rqs. successful re_match hs rq"
  shows "take (Suc (length rqs))
           (poll_cursors (fst (run_loop re_match self hs reload (PollBatch server key ts) servers
              (map Inr rqs @ rest)))) =
         ts # map response_ts rqs \<and>
         (\<forall>rq\<in>set rqs. \<forall>ts' responses.
            run_loop re_match self hs reload (PollBatch server key ts') servers
              (Inr rq # responses) =
            emit (Poll server key ts' # fst (dispatch_updates re_match hs (updates_of rq)))
              (run_loop re_match self hs reload (PollBatch server key (response_ts rq)) servers
                 responses)) \<and>
         (\<forall>rq\<in>set rqs. \<forall>d. rq = PDict d \<longrightarrow>
            response_ts rq = (case map_of d ''ts'' of None \<Rightarrow> PInt 1 | Some x \<Rightarrow> x))"
proof (intro conjI ballI allI impI)
  show "take (Suc (length rqs))
           (poll_cursors (fst (run_loop re_match self hs reload (PollBatch server key ts) servers
              (map Inr rqs @ rest)))) =
         ts # map response_ts rqs"
    by (rule cursors_of_successful_polls [OF assms])
next
  fix rq ts' responses
  assume "rq \<in> set rqs"
  with assms have "successful re_match hs rq" by blast
  then show "run_loop re_match self hs reload (PollBatch server key ts') servers
              (Inr rq # responses) =
            emit (Poll server key ts' # fst (dispatch_updates re_match hs (updates_of rq)))
              (run_loop re_match self hs reload (PollBatch server key (response_ts rq)) servers
                 responses)"
    by (rule successful_poll_step)
next
  fix rq d
  assume "rq = PDict d"
  then show "response_ts rq = (case map_of d ''ts'' of None \<Rightarrow> PInt 1 | Some x \<Rightarrow> x)"
    by (simp add: response_ts_def)
qed

lemma sample_batch_successful:
  "successful never_matches [message_handler ''cb''] sample_batch"
  by (simp add: successful_def sample_batch_def message_handler_def quiet_def Event_def
      Handler_handle_def TypeRule_check_def attr_def)

lemma sample_batch_without_ts_successful:
  "successful never_matches [message_handler ''cb''] sample_batch_without_ts"
  by (simp add: successful_def sample_batch_without_ts_def)

theorem cursor_follows_response_ts_witness:
  "take 3 (poll_cursors (fst (run_loop never_matches (VKBot 1 ''5.80'') [message_handler ''cb'']
       False (PollBatch (PStr ''s'') (PStr ''k'') (PInt 10)) []
       [Inr sample_batch, Inr sample_batch_without_ts]))) = [PInt 10, PInt 11, PInt 1]"
proof -
  have h: "\<forall>rq\<in>set [sample_batch, sample_batch_without_ts].
      successful never_matches [message_handler ''cb''] rq"
    by (simp add: sample_batch_successful sample_batch_without_ts_successful)
  have r: "map response_ts [sample_batch, sample_batch_without_ts] = [PInt 11, PInt 1]"
    by (simp add: response_ts_def sample_batch_def sample_batch_without_ts_def)
  from cursor_follows_response_ts [OF h, of "VKBot 1 ''5.80''" False "PStr ''s''" "PStr ''k''"
      "PInt 10" "[]" "[]"]
  have "take (Suc (length [sample_batch, sample_batch_without_ts]))
           (poll_cursors (fst (run_loop never_matches (VKBot 1 ''5.80'') [message_handler ''cb'']
              False (PollBatch (PStr ''s'') (PStr ''k'') (PInt 10)) []
              (map Inr [sample_batch, sample_batch_without_ts] @ [])))) =
         PInt 10 # map response_ts [sample_batch, sample_batch_without_ts]"
    by blast
  then show ?thesis
    unfolding r by (simp del: run_loop.simps add: numeral_3_eq_3)
qed

section \<open>The registry is shared by the instances\<close>

lemma dispatch_updates_append:
  "dispatch_updates re_match hs us1 = (acts1, None) \<Longrightarrow>
   dispatch_updates re_match hs (us1 @ us) =
     (acts1 @ fst (dispatch_updates re_match hs us), snd (dispatch_updates re_match hs us))"
proof (induction us1 arbitrary: acts1)
  case Nil
  then show ?case by simp
next
  case (Cons u us1)
  from Cons.prems obtain ev where ev: "Event u = Inr ev"
    by (cases "Event u") simp_all
  obtain a r where o: "offer re_match hs ev = (a, r)"
    by (cases "offer re_match hs ev")
  from Cons.prems ev o have r: "r = None"
    by (cases r) (simp_all split: prod.splits)
  obtain a' r' where d: "dispatch_updates re_match hs us1 = (a', r')"
    by (cases "dispatch_updates re_match hs us1")
  from Cons.prems ev o r d have "r' = None" and acts1: "acts1 = a @ a'"
    by simp_all
  with d Cons.IH [of a'] have "dispatch_updates re_match hs (us1 @ us) =
     (a' @ fst (dispatch_updates re_match hs us), snd (dispatch_updates re_match hs us))"
    by simp
  with ev o r acts1 show ?case by simp
qed

lemma dispatch_updates_invokes:
  assumes "dispatch_updates re_match hs us1 = (acts1, None)"
    and "Event u = Inr ev"
    and "fst (offer re_match hs ev) = [Invoke name ev]"
  shows "Invoke name ev \<in> set (fst (dispatch_updates re_match hs (us1 @ u # us2)))"
proof -
  obtain r where o: "offer re_match hs ev = ([Invoke name ev], r)"
    using assms(3) by (cases "offer re_match hs ev") simp
  have "Invoke name ev \<in> set (fst (dispatch_updates re_match hs (u # us2)))"
    using assms(2) o by (cases r) (simp_all split: prod.splits)
  with dispatch_updates_append [OF assms(1), of "u # us2"] show ?thesis by simp
qed

lemma poll_cycle_invokes:
  assumes "\<forall>x. map_of d ''failed'' = Some x \<longrightarrow> \<not> truthy x"
    and "map_of d ''updates'' = Some (PList us)"
    and "a \<in> set (fst (dispatch_updates re_match hs us))"
  shows "a \<in> set (fst (run_loop re_match self hs reload (PollBatch server key ts) servers
           (Inr (PDict d) # responses)))"
proof -
  have nf: "\<not> truthy (case map_of d ''failed'' of None \<Rightarrow> PNone | Some x \<Rightarrow> x)"
    using assms(1) by (cases "map_of d ''failed''") simp_all
  obtain acts r where da: "dispatch_updates re_match hs us = (acts, r)"
    by (cases "dispatch_updates re_match hs us")
  with assms(3) have "a \<in> set acts" by simp
  with nf assms(2) da show ?thesis
    by (cases r) (simp_all add: emit_def)
qed

lemma run_loop_after_successful_polls:
  assumes "\<forall>rq\<in>set rqs. successful re_match hs rq"
  shows "\<exists>ts'. set (fst (run_loop re_match self hs reload (PollBatch server key ts') servers rest))
           \<subseteq> set (fst (run_loop re_match self hs reload (PollBatch server key ts) servers
                 (map Inr rqs @ rest)))"
  using assms
proof (induction rqs arbitrary: ts)
  case Nil
  show ?case by (rule exI [of _ ts]) simp
next
  case (Cons rq rqs)
  then have s: "successful re_match hs rq" and rest: "\<forall>rq\<in>set rqs. successful re_match hs rq"
    by simp_all
  from Cons.IH [OF rest, of "response_ts rq"]
  obtain ts' where sub: "set (fst (run_loop re_match self hs reload (PollBatch server key ts') servers rest))
           \<subseteq> set (fst (run_loop re_match self hs reload (PollBatch server key (response_ts rq))
                 servers (map Inr rqs @ rest)))" by blast
  have "set (fst (run_loop re_match self hs reload (PollBatch server key (response_ts rq))
                 servers (map Inr rqs @ rest)))
        \<subseteq> set (fst (run_loop re_match self hs reload (PollBatch server key ts) servers
                 (map Inr (rq # rqs) @ rest)))"
    using successful_poll_step [OF s, of self reload server key ts servers "map Inr rqs @ rest"]
    by (auto simp: emit_def simp del: run_loop.simps)
  with sub show ?case by blast
qed

lemma run_starts_polling:
  assumes "py_subscript s ''ts'' = Inr ts" and "py_subscript s ''server'' = Inr server"
    and "py_subscript s ''key'' = Inr key"
  shows "run re_match self cls threaded reload (Inr s # servers) responses =
           emit [GetLongPollServer (self_group_id self)]
             (run_loop re_match self (handlers cls) reload (PollBatch server key ts) servers
                responses)"
  using assms by (simp add: run_def)

text \<open>
  C10. The list of handlers belongs to the class, not to an instance. The decorators of
  \<open>handle_message\<close> and \<open>handle_event\<close> return the callback they were given. After
  a registration made through any instance \<open>bot1\<close>, and whatever is registered after
  it, a dispatch pass over the class's list reaches the new handler whenever the handlers
  registered before it decline the event, and then calls its callback if its rule
  matches. So in the run of any instance \<open>bot2\<close>, after any number of successful
  polls, a successful response that carries such an event (after updates that were
  dispatched without an exception) gets the callback called.
\<close>

theorem registered_handler_is_offered_by_every_instance:
  "fst (handle_message bot1 args f cls) = f \<and>
   fst (handle_event bot1 rl event_type f cls) = f \<and>
   ((cls' = snd (handle_message bot1 args f cls) \<and> r = MessageRule args \<or>
     cls' = snd (handle_event bot1 rl event_type f cls) \<and>
       r = (case rl of Some x \<Rightarrow> x | None \<Rightarrow> TypeRule event_type None)) \<and>
    handlers now = handlers cls' @ later \<and>
    (\<forall>h\<in>set (handlers cls). \<exists>c. rule_check re_match (rule h) ev = Inr c \<and> \<not> truthy c) \<and>
    returns_truthy (rule_check re_match r ev) \<longrightarrow>
      fst (offer re_match (handlers now) ev) = [Invoke (cb_name f) ev] \<and>
      (py_subscript s ''ts'' = Inr ts \<and> py_subscript s ''server'' = Inr server \<and>
       py_subscript s ''key'' = Inr key \<and>
       (\<forall>rq\<in>set rqs. successful re_match (handlers now) rq) \<and>
       (\<forall>x. map_of d ''failed'' = Some x \<longrightarrow> \<not> truthy x) \<and>
       map_of d ''updates'' = Some (PList (us1 @ u # us2)) \<and>
       snd (dispatch_updates re_match (handlers now) us1) = None \<and>
       Event u = Inr ev \<longrightarrow>
         Invoke (cb_name f) ev \<in> set (fst (run re_match bot2 now threaded reload
            (Inr s # servers) (map Inr rqs @ Inr (PDict d) # rest)))))"
proof (intro conjI impI)
  show "fst (handle_message bot1 args f cls) = f"
    by (simp add: handle_message_def)
  show "fst (handle_event bot1 rl event_type f cls) = f"
    by (cases rl) (simp_all add: handle_event_def)
next
  assume h: "(cls' = snd (handle_message bot1 args f cls) \<and> r = MessageRule args \<or>
     cls' = snd (handle_event bot1 rl event_type f cls) \<and>
       r = (case rl of Some x \<Rightarrow> x | None \<Rightarrow> TypeRule event_type None)) \<and>
    handlers now = handlers cls' @ later \<and>
    (\<forall>h\<in>set (handlers cls). \<exists>c. rule_check re_match (rule h) ev = Inr c \<and> \<not> truthy c) \<and>
    returns_truthy (rule_check re_match r ev)"
  then have hs: "handlers now = handlers cls @ \<lparr>func = f, rule = r\<rparr> # later"
    by (cases rl) (auto simp: handle_message_def handle_event_def)
  from h have decline: "\<forall>h\<in>set (handlers cls). \<exists>c. rule_check re_match (rule h) ev = Inr c \<and> \<not> truthy c"
    and m: "returns_truthy (rule_check re_match (rule \<lparr>func = f, rule = r\<rparr>) ev)"
    by simp_all
  from offer_skips_non_matching [OF decline, of "\<lparr>func = f, rule = r\<rparr> # later"]
    offer_match_head [OF m, of later]
  show o: "fst (offer re_match (handlers now) ev) = [Invoke (cb_name f) ev]"
    by (simp add: hs del: offer.simps)
  assume p: "py_subscript s ''ts'' = Inr ts \<and> py_subscript s ''server'' = Inr server \<and>
       py_subscript s ''key'' = Inr key \<and>
       (\<forall>rq\<in>set rqs. successful re_match (handlers now) rq) \<and>
       (\<forall>x. map_of d ''failed'' = Some x \<longrightarrow> \<not> truthy x) \<and>
       map_of d ''updates'' = Some (PList (us1 @ u # us2)) \<and>
       snd (dispatch_updates re_match (handlers now) us1) = None \<and>
       Event u = Inr ev"
  then obtain acts1 where d1: "dispatch_updates re_match (handlers now) us1 = (acts1, None)"
    by (cases "dispatch_updates re_match (handlers now) us1") simp
  from p have ev: "Event u = Inr ev" by simp
  have inv: "Invoke (cb_name f) ev \<in>
      set (fst (dispatch_updates re_match (handlers now) (us1 @ u # us2)))"
    by (rule dispatch_updates_invokes [OF d1 ev o])
  from p have nf: "\<forall>x. map_of d ''failed'' = Some x \<longrightarrow> \<not> truthy x"
    and up: "map_of d ''updates'' = Some (PList (us1 @ u # us2))"
    and ok: "\<forall>rq\<in>set rqs. successful re_match (handlers now) rq"
    by simp_all
  from run_loop_after_successful_polls [OF ok, of bot2 reload server key servers
      "Inr (PDict d) # rest" ts]
  obtain ts' where sub: "set (fst (run_loop re_match bot2 (handlers now) reload
        (PollBatch server key ts') servers (Inr (PDict d) # rest)))
      \<subseteq> set (fst (run_loop re_match bot2 (handlers now) reload (PollBatch server key ts) servers
            (map Inr rqs @ Inr (PDict d) # rest)))" by blast
  from poll_cycle_invokes [OF nf up inv, of bot2 reload server key ts' servers rest] sub
  have "Invoke (cb_name f) ev \<in> set (fst (run_loop re_match bot2 (handlers now) reload
        (PollBatch server key ts) servers (map Inr rqs @ Inr (PDict d) # rest)))"
    by blast
  moreover from p have "run re_match bot2 now threaded reload (Inr s # servers)
        (map Inr rqs @ Inr (PDict d) # rest) =
      emit [GetLongPollServer (self_group_id bot2)]
        (run_loop re_match bot2 (handlers now) reload (PollBatch server key ts) servers
           (map Inr rqs @ Inr (PDict d) # rest))"
    by (simp add: run_starts_polling)
  ultimately show "Invoke (cb_name f) ev \<in> set (fst (run re_match bot2 now threaded reload
            (Inr s # servers) (map Inr rqs @ Inr (PDict d) # rest)))"
    by (simp add: emit_def)
qed

theorem registered_handler_is_offered_witness:
  "fst (offer never_matches
      (handlers (snd (handle_event (VKBot 1 ''5.80'') None (PStr ''message_new'') (quiet ''cb'')
         \<lparr>handlers = [join_handler ''old'']\<rparr>)))
      (message_new_event (PDict []))) = [Invoke ''cb'' (message_new_event (PDict []))] \<and>
   Invoke ''cb'' (message_new_event (PDict [])) \<in>
     set (fst (run never_matches (VKBot 2 ''5.80'')
       (snd (handle_event (VKBot 1 ''5.80'') None (PStr ''message_new'') (quiet ''cb'')
         \<lparr>handlers = [join_handler ''old'']\<rparr>))
       False False [Inr sample_server] [Inr sample_batch_without_ts, Inr sample_batch])) \<and>
   fst (offer never_matches
      (handlers (snd (handle_message (VKBot 1 ''5.80'') sample_rule (quiet ''cb'') empty_class)) @
       [message_handler ''late''])
      (message_new_event sample_message)) = [Invoke ''cb'' (message_new_event sample_message)]"
proof -
  let ?ev = "message_new_event (PDict [])"
  let ?cls = "\<lparr>handlers = [join_handler ''old'']\<rparr>"
  let ?cls' = "snd (handle_event (VKBot 1 ''5.80'') None (PStr ''message_new'') (quiet ''cb'') ?cls)"
  let ?r = "TypeRule (PStr ''message_new'') None"
  let ?u = "PDict [(''type'', PStr ''message_new''), (''object'', PDict [])]"
  let ?d = "[(''ts'', PInt 11), (''updates'', PList [?u])]"
  have reg: "?cls' = snd (handle_message (VKBot 1 ''5.80'') no_conditions (quiet ''cb'') ?cls) \<and>
        ?r = MessageRule no_conditions \<or>
      ?cls' = snd (handle_event (VKBot 1 ''5.80'') None (PStr ''message_new'') (quiet ''cb'') ?cls) \<and>
        ?r = (case None of Some x \<Rightarrow> x | None \<Rightarrow> TypeRule (PStr ''message_new'') None)"
    by simp
  have decline: "\<forall>h\<in>set (handlers ?cls). \<exists>c. rule_check never_matches (rule h) ?ev = Inr c \<and> \<not> truthy c"
    by (simp add: join_handler_def message_new_event_def TypeRule_check_def attr_def)
  have m: "returns_truthy (rule_check never_matches ?r ?ev)"
    by (simp add: message_new_event_def returns_truthy_def TypeRule_check_def attr_def)
  have s: "py_subscript sample_server ''ts'' = Inr (PInt 10) \<and>
      py_subscript sample_server ''server'' = Inr (PStr ''https://lp.vk.com/wh1'') \<and>
      py_subscript sample_server ''key'' = Inr (PStr ''k'')"
    by (simp add: sample_server_def)
  have ok: "\<forall>rq\<in>set [sample_batch_without_ts]. successful never_matches (handlers ?cls') rq"
    by (simp add: successful_def sample_batch_without_ts_def)
  have nf: "\<forall>x. map_of ?d ''failed'' = Some x \<longrightarrow> \<not> truthy x"
    by simp
  have up: "map_of ?d ''updates'' = Some (PList ([] @ ?u # []))"
    by simp
  have d1: "snd (dispatch_updates never_matches (handlers ?cls') []) = None"
    by simp
  have ev: "Event ?u = Inr ?ev"
    by (simp add: Event_def message_new_event_def)
  have nm: "cb_name (quiet ''cb'') = ''cb''"
    by (simp add: quiet_def)
  note w = registered_handler_is_offered_by_every_instance [of "VKBot 1 ''5.80''" no_conditions
      "quiet ''cb''" ?cls None "PStr ''message_new''" ?cls' ?r ?cls' "[]" never_matches ?ev sample_server
      "PInt 10" "PStr ''https://lp.vk.com/wh1''" "PStr ''k''" "[sample_batch_without_ts]" ?d
      "[]" ?u "[]" "VKBot 2 ''5.80''" False False "[]" "[]", unfolded nm]
  have b: "sample_batch = PDict ?d"
    by (simp add: sample_batch_def)
  have now: "handlers ?cls' = handlers ?cls' @ []"
    by simp
  from w reg now decline m s ok nf up d1 ev
  have one: "fst (offer never_matches (handlers ?cls') ?ev) = [Invoke ''cb'' ?ev]"
    and two: "Invoke ''cb'' ?ev \<in> set (fst (run never_matches (VKBot 2 ''5.80'') ?cls' False False
        (Inr sample_server # []) (map Inr [sample_batch_without_ts] @ Inr (PDict ?d) # [])))"
    by blast+
  let ?ev2 = "message_new_event sample_message"
  let ?cls2 = "snd (handle_message (VKBot 1 ''5.80'') sample_rule (quiet ''cb'') empty_class)"
  have reg2: "?cls2 = snd (handle_message (VKBot 1 ''5.80'') sample_rule (quiet ''cb'') empty_class) \<and>
        MessageRule sample_rule = MessageRule sample_rule \<or>
      ?cls2 = snd (handle_event (VKBot 1 ''5.80'') None PNone (quiet ''cb'') empty_class) \<and>
        MessageRule sample_rule = (case None of Some x \<Rightarrow> x | None \<Rightarrow> TypeRule PNone None)"
    by simp
  have decline2: "\<forall>h\<in>set (handlers empty_class).
      \<exists>c. rule_check never_matches (rule h) ?ev2 = Inr c \<and> \<not> truthy c"
    by (simp add: empty_class_def)
  have m2: "returns_truthy (rule_check never_matches (MessageRule sample_rule) ?ev2)"
    by (simp add: message_new_event_def sample_message_def sample_rule_def no_conditions_def
        returns_truthy_def MessageRule_check_def attr_def guarded_def Let_def ior_def
        attachment_cond_def)
  note w2 = registered_handler_is_offered_by_every_instance [of "VKBot 1 ''5.80''" sample_rule
      "quiet ''cb''" empty_class None PNone ?cls2 "MessageRule sample_rule"
      "\<lparr>handlers = handlers ?cls2 @ [message_handler ''late'']\<rparr>" "[message_handler ''late'']"
      never_matches ?ev2, unfolded nm]
  have now2: "handlers \<lparr>handlers = handlers ?cls2 @ [message_handler ''late'']\<rparr> =
      handlers ?cls2 @ [message_handler ''late'']"
    by simp
  from w2 reg2 now2 decline2 m2
  have three: "fst (offer never_matches
      (handlers \<lparr>handlers = handlers ?cls2 @ [message_handler ''late'']\<rparr>) ?ev2) =
      [Invoke ''cb'' ?ev2]"
    by blast
  from one two three show ?thesis
    unfolding b now2 by (simp del: offer.simps)
qed

lemma handler_registered_by_one_bot_runs_in_another:
  "run never_matches (VKBot 2 ''5.80'')
     (snd (handle_event (VKBot 1 ''5.80'') None (PStr ''message_new'') (quiet ''cb'') empty_class))
     False False [Inr sample_server] [Inr sample_batch] =
   ([GetLongPollServer 2,
     Poll (PStr ''https://lp.vk.com/wh1'') (PStr ''k'') (PInt 10),
     Invoke ''cb'' (message_new_event (PDict [])),
     Poll (PStr ''https://lp.vk.com/wh1'') (PStr ''k'') (PInt 11)], Waiting)"
  by (simp add: run_def handle_event_def empty_class_def sample_server_def sample_batch_def
      VKBot_def emit_def quiet_def Event_def Handler_handle_def TypeRule_check_def attr_def
      message_new_event_def)

end
